theory Spec2Isabelle
  imports Main "HOL-Library.Word"
begin

section \<open>LlamaTransformerSplitServer: the framing protocol and the connection handler\<close>

text \<open>
  The model follows \<^verbatim>\<open>src/LlamaTransformerServer.py\<close>. Everything the handler calls
  that is not code of the repository (the socket, \<^verbatim>\<open>pickle\<close>, \<^verbatim>\<open>torch\<close>, the decoder
  layers loaded from the model file) is an explicit parameter: the socket is a record
  holding what the peer will deliver, the libraries are the fields of the record
  \<open>server\<close>. Every call that can raise returns a sum, \<open>Inl\<close> the exception.
\<close>

subsection \<open>Exceptions\<close>

text \<open>
  The exceptions the handler can meet. \<open>PyException c\<close> is any other class derived from
  \<^verbatim>\<open>Exception\<close> (an unpickling error, a torch error); \<open>PyBaseException c\<close> is a class
  derived from \<^verbatim>\<open>BaseException\<close> only (\<^verbatim>\<open>KeyboardInterrupt\<close>, \<^verbatim>\<open>SystemExit\<close>), which
  an \<^verbatim>\<open>except Exception\<close> clause does not catch.
\<close>

datatype exn =
    StructError
  | RuntimeError string
  | AttributeError
  | IndexError
  | UnboundLocalError string
  | OSError string
  | PyException string
  | PyBaseException string

fun is_Exception :: "exn \<Rightarrow> bool" where
  "is_Exception (PyBaseException c) = False"
| "is_Exception e = True"

definition bind_exn :: "exn + 'a \<Rightarrow> ('a \<Rightarrow> exn + 'b) \<Rightarrow> exn + 'b" where
  "bind_exn r f = (case r of Inl e \<Rightarrow> Inl e | Inr v \<Rightarrow> f v)"

subsection \<open>\<^verbatim>\<open>struct.pack('>I', n)\<close> and \<^verbatim>\<open>struct.unpack('>I', b)[0]\<close>\<close>

type_synonym byte = "8 word"

fun struct_unpack_I :: "byte list \<Rightarrow> exn + nat" where
  "struct_unpack_I [b0, b1, b2, b3] =
     Inr (unat b0 * 2 ^ 24 + unat b1 * 2 ^ 16 + unat b2 * 2 ^ 8 + unat b3)"
| "struct_unpack_I bs = Inl StructError"

definition struct_pack_I :: "nat \<Rightarrow> exn + byte list" where
  "struct_pack_I n =
     (if n < 2 ^ 32
      then Inr [of_nat (n div 2 ^ 24), of_nat (n div 2 ^ 16), of_nat (n div 2 ^ 8), of_nat n]
      else Inl StructError)"

subsection \<open>The connection socket\<close>

text \<open>
  What arrives on a connection is a sequence of events: a segment of bytes, or an error
  of the transport. The peer closes its side after the last event. \<open>recv\<close> returns at
  most \<open>bufsize\<close> bytes of the segment at the head, never bytes of two segments, and the
  empty string only at the end of the stream, as a blocking \<^verbatim>\<open>socket.recv\<close> does. (A
  peer that neither sends nor closes would leave \<^verbatim>\<open>recv\<close> blocked for ever; the model
  has no such stream.)
  \<open>rlog\<close> keeps every call of \<open>recv\<close> with its buffer size and its result;
  \<open>sent\<close> keeps what each \<open>sendall\<close> transmitted; \<open>room\<close> is the number of bytes the
  peer still takes before a send fails (\<open>None\<close>: no limit).
\<close>

datatype rx = Seg "byte list" | RxErr exn

record sock =
  inq :: "rx list"
  rlog :: "(nat \<times> (exn + byte list)) list"
  sent :: "byte list list"
  room :: "nat option"
  closed :: bool

fun recv_from :: "nat \<Rightarrow> rx list \<Rightarrow> (exn + byte list) \<times> rx list" where
  "recv_from bufsize [] = (Inr [], [])"
| "recv_from bufsize (RxErr e # q) = (Inl e, q)"
| "recv_from bufsize (Seg bs # q) =
     (if bs = [] then recv_from bufsize q
      else if length bs \<le> bufsize then (Inr bs, q)
      else (Inr (take bufsize bs), Seg (drop bufsize bs) # q))"

definition recv :: "nat \<Rightarrow> sock \<Rightarrow> (exn + byte list) \<times> sock" where
  "recv bufsize s =
     (case recv_from bufsize (inq s) of
        (r, q) \<Rightarrow> (r, s\<lparr>inq := q, rlog := rlog s @ [(bufsize, r)]\<rparr>))"

definition sendall :: "byte list \<Rightarrow> sock \<Rightarrow> (exn + unit) \<times> sock" where
  "sendall data s =
     (case room s of
        None \<Rightarrow> (Inr (), s\<lparr>sent := sent s @ [data]\<rparr>)
      | Some r \<Rightarrow>
          if length data \<le> r
          then (Inr (), s\<lparr>sent := sent s @ [data], room := Some (r - length data)\<rparr>)
          else (Inl (OSError ''Broken pipe''),
                s\<lparr>sent := sent s @ [take r data], room := Some 0\<rparr>))"

definition close :: "sock \<Rightarrow> sock" where
  "close s = s\<lparr>closed := True\<rparr>"

subsection \<open>Reading a frame (lines 52 to 63 of \<^verbatim>\<open>handle_client\<close>)\<close>

function recv_loop ::
  "nat \<Rightarrow> byte list list \<Rightarrow> nat \<Rightarrow> sock \<Rightarrow> (exn + byte list list) \<times> sock" where
  "recv_loop data_size chunks bytes_recd s =
     (if bytes_recd < data_size then
        (case recv (min (data_size - bytes_recd) 2048) s of
           (Inl e, s') \<Rightarrow> (Inl e, s')
         | (Inr chunk, s') \<Rightarrow>
             if chunk = [] then (Inl (RuntimeError ''socket connection broken''), s')
             else recv_loop data_size (chunks @ [chunk]) (bytes_recd + length chunk) s')
      else (Inr chunks, s))"
  by pat_completeness auto
termination
  by (relation "measure (\<lambda>(data_size, chunks, bytes_recd, s). data_size - bytes_recd)")
     (auto simp: neq_Nil_conv)

definition read_frame :: "sock \<Rightarrow> (exn + byte list) \<times> sock" where
  "read_frame s =
     (case recv 4 s of
        (Inl e, s1) \<Rightarrow> (Inl e, s1)
      | (Inr header, s1) \<Rightarrow>
          (case struct_unpack_I header of
             Inl e \<Rightarrow> (Inl e, s1)
           | Inr data_size \<Rightarrow>
               (case recv_loop data_size [] 0 s1 of
                  (Inl e, s2) \<Rightarrow> (Inl e, s2)
                | (Inr chunks, s2) \<Rightarrow> (Inr (concat chunks), s2))))"

subsection \<open>Writing a frame (lines 112 to 114)\<close>

definition write_frame :: "byte list \<Rightarrow> sock \<Rightarrow> (exn + unit) \<times> sock" where
  "write_frame result s =
     (case struct_pack_I (length result) of
        Inl e \<Rightarrow> (Inl e, s)
      | Inr header \<Rightarrow>
          (case sendall header s of
             (Inl e, s1) \<Rightarrow> (Inl e, s1)
           | (Inr u, s1) \<Rightarrow> sendall result s1))"

subsection \<open>The request, the libraries and the decoder layers\<close>

text \<open>
  \<open>input_data\<close> is what line 69 unpacks: eight values in a fixed order. A value that
  may be \<^verbatim>\<open>None\<close> is an option. The type \<open>'t\<close> is the type of tensors (and of the cache
  object, on which the handler calls the same two methods).
\<close>

record 't input_data =
  in_hidden_states :: "'t option"
  in_causal_mask :: "'t option"
  in_position_ids :: "'t option"
  in_past_key_values :: "'t option"
  in_output_attentions :: bool
  in_use_cache :: bool
  in_cache_position :: "'t option"
  in_position_embeddings :: "'t list option"

text \<open>
  The keyword arguments of a decoder layer, in the order of lines 90 to 96:
  \<^verbatim>\<open>attention_mask\<close>, \<^verbatim>\<open>position_ids\<close>, \<^verbatim>\<open>past_key_value\<close>, \<^verbatim>\<open>output_attentions\<close>,
  \<^verbatim>\<open>use_cache\<close>, \<^verbatim>\<open>cache_position\<close>, \<^verbatim>\<open>position_embeddings\<close>. A layer returns a tuple or
  raises.
\<close>

type_synonym 't kwargs = "'t option \<times> 't \<times> 't \<times> bool \<times> bool \<times> 't \<times> 't list"

type_synonym 't layer = "'t \<Rightarrow> 't kwargs \<Rightarrow> exn + 't list"

text \<open>
  \<open>to_half x\<close> is \<^verbatim>\<open>x.to(self.device).half()\<close>; \<open>pickle_loads\<close> is \<^verbatim>\<open>pickle.loads\<close>
  followed by the unpacking of line 69 (it raises when the payload is not a pickle of
  eight values); \<open>pickle_dumps\<close> is \<^verbatim>\<open>pickle.dumps\<close> of the tuple of line 106.
\<close>

record 't server =
  to_half :: "'t \<Rightarrow> exn + 't"
  transformer_layers_split :: "'t layer list"
  pickle_loads :: "byte list \<Rightarrow> exn + 't input_data"
  pickle_dumps :: "'t \<times> 't \<times> 't \<Rightarrow> exn + byte list"

definition to_device_half :: "'t server \<Rightarrow> 't option \<Rightarrow> exn + 't" where
  "to_device_half self x = (case x of None \<Rightarrow> Inl AttributeError | Some t \<Rightarrow> to_half self t)"

fun to_half_all :: "'t server \<Rightarrow> 't list \<Rightarrow> exn + 't list" where
  "to_half_all self [] = Inr []"
| "to_half_all self (tensor # rest) =
     bind_exn (to_half self tensor) (\<lambda>t.
     bind_exn (to_half_all self rest) (\<lambda>ts. Inr (t # ts)))"

definition tuple_get :: "'a list \<Rightarrow> nat \<Rightarrow> exn + 'a" where
  "tuple_get xs i = (if i < length xs then Inr (xs ! i) else Inl IndexError)"

subsection \<open>Running the model (lines 68 to 106)\<close>

text \<open>
  The loop of lines 86 to 103. \<open>next_decoder_cache\<close> is \<open>None\<close> as long as the local
  variable has not been assigned.
\<close>

fun run_layers ::
  "'t layer list \<Rightarrow> 't kwargs \<Rightarrow> 't \<Rightarrow> 't option \<Rightarrow> exn + 't \<times> 't option" where
  "run_layers [] kw hidden_states next_decoder_cache = Inr (hidden_states, next_decoder_cache)"
| "run_layers (decoder_layer # rest) kw hidden_states next_decoder_cache =
     (case kw of
        (causal_mask, position_ids, past_key_values, output_attentions, use_cache, positions) \<Rightarrow>
          bind_exn (decoder_layer hidden_states kw) (\<lambda>layer_outputs.
          bind_exn (tuple_get layer_outputs 0) (\<lambda>hidden_states'.
            if use_cache
            then bind_exn (tuple_get layer_outputs (if output_attentions then 2 else 1))
                   (\<lambda>c. run_layers rest kw hidden_states' (Some c))
            else run_layers rest kw hidden_states' next_decoder_cache)))"

text \<open>
  The value of the local variable \<open>output\<close> after line 106: \<open>None\<close> when it was never
  assigned.
\<close>

definition run_model :: "'t server \<Rightarrow> 't input_data \<Rightarrow> exn + ('t \<times> 't \<times> 't) option" where
  "run_model self input_data =
     bind_exn (to_device_half self (in_hidden_states input_data)) (\<lambda>hidden_states.
     bind_exn (to_device_half self (in_position_ids input_data)) (\<lambda>position_ids.
     bind_exn (to_device_half self (in_past_key_values input_data)) (\<lambda>past_key_values.
     bind_exn (to_device_half self (in_cache_position input_data)) (\<lambda>cache_position.
     bind_exn (case in_causal_mask input_data of
                 None \<Rightarrow> Inr None
               | Some m \<Rightarrow> bind_exn (to_half self m) (\<lambda>m'. Inr (Some m'))) (\<lambda>causal_mask.
     case in_position_embeddings input_data of
       None \<Rightarrow> Inr None
     | Some pe \<Rightarrow>
         bind_exn (to_half_all self pe) (\<lambda>position_embeddings.
         bind_exn (run_layers (transformer_layers_split self)
                     (causal_mask, position_ids, past_key_values,
                      in_output_attentions input_data, in_use_cache input_data,
                      cache_position, position_embeddings)
                     hidden_states None) (\<lambda>(hidden_states', next_decoder_cache).
           case next_decoder_cache of
             None \<Rightarrow> Inl (UnboundLocalError ''next_decoder_cache'')
           | Some c \<Rightarrow> Inr (Some (hidden_states', c, past_key_values))))))))) "

subsection \<open>\<^verbatim>\<open>handle_client\<close>\<close>

text \<open>
  \<open>build_response\<close> is lines 65 to 111: decode, run, and pickle the output; reading the
  unassigned \<open>output\<close> raises. \<open>handle_try\<close> is the body of the \<^verbatim>\<open>try\<close>.
\<close>

definition build_response :: "'t server \<Rightarrow> byte list \<Rightarrow> exn + byte list" where
  "build_response self data =
     bind_exn (pickle_loads self data) (\<lambda>input_data.
     bind_exn (run_model self input_data) (\<lambda>output.
       case output of
         None \<Rightarrow> Inl (UnboundLocalError ''output'')
       | Some out \<Rightarrow> pickle_dumps self out))"

definition handle_payload :: "'t server \<Rightarrow> byte list \<Rightarrow> sock \<Rightarrow> (exn + unit) \<times> sock" where
  "handle_payload self data s =
     (case build_response self data of
        Inl e \<Rightarrow> (Inl e, s)
      | Inr result \<Rightarrow> write_frame result s)"

definition handle_try :: "'t server \<Rightarrow> sock \<Rightarrow> (exn + unit) \<times> sock" where
  "handle_try self client_socket =
     (case read_frame client_socket of
        (Inl e, s1) \<Rightarrow> (Inl e, s1)
      | (Inr data, s1) \<Rightarrow> handle_payload self data s1)"

text \<open>
  How a call of \<^verbatim>\<open>handle_client\<close> ends: it returns, having printed the exception it
  caught if there was one, or an exception that \<^verbatim>\<open>except Exception\<close> does not catch
  leaves it. The \<^verbatim>\<open>finally\<close> clause closes the socket in both cases.
\<close>

datatype outcome = Returned "exn option" | Raised exn

definition handle_client :: "'t server \<Rightarrow> sock \<Rightarrow> outcome \<times> sock" where
  "handle_client self client_socket =
     (case handle_try self client_socket of
        (Inr u, s) \<Rightarrow> (Returned None, close s)
      | (Inl e, s) \<Rightarrow>
          (if is_Exception e then Returned (Some e) else Raised e, close s))"

subsection \<open>\<^verbatim>\<open>start_server\<close>\<close>

text \<open>
  The outer loop never ends by itself, so the model runs it against a script: one
  \<open>attempt\<close> for each pass of the outer \<^verbatim>\<open>while True\<close>, saying which of the calls on
  the listening socket raises and what \<^verbatim>\<open>accept\<close> returns, call after call. When the
  script has no more to give, the server is still running: blocked in \<^verbatim>\<open>accept\<close>, or at
  the head of the outer loop. The result is that status, the trace of what the server
  did, and the client sockets as their handlers left them. Connections are numbered in
  the order of their acceptance.
\<close>

datatype accept_event = Connection sock | AcceptError exn

record attempt =
  socket_error :: "exn option"
  setsockopt_error :: "exn option"
  bind_error :: "exn option"
  listen_error :: "exn option"
  accepts :: "accept_event list"

datatype event =
    CallSocket
  | CallSetsockopt
  | CallBind
  | CallListen
  | PrintListening
  | CallAccept
  | PrintAccepted nat
  | CallHandleClient nat
  | HandleClientDone nat
  | ServerClose
  | PrintServerError exn
  | PrintTraceback

datatype status = Running | Terminated exn

text \<open>The inner loop, lines 131 to 134; \<open>Some e\<close> is the exception that leaves it.\<close>

fun accept_loop ::
  "'t server \<Rightarrow> accept_event list \<Rightarrow> nat \<Rightarrow> exn option \<times> event list \<times> sock list" where
  "accept_loop self [] n = (None, [CallAccept], [])"
| "accept_loop self (AcceptError e # rest) n = (Some e, [CallAccept], [])"
| "accept_loop self (Connection client_socket # rest) n =
     (case handle_client self client_socket of
        (Raised e, s) \<Rightarrow>
          (Some e, [CallAccept, PrintAccepted n, CallHandleClient n, HandleClientDone n], [s])
      | (Returned printed, s) \<Rightarrow>
          (case accept_loop self rest (Suc n) of
             (r, tr, socks) \<Rightarrow>
               (r, [CallAccept, PrintAccepted n, CallHandleClient n, HandleClientDone n] @ tr,
                s # socks)))"

text \<open>Lines 126 to 134, the body of the \<^verbatim>\<open>with\<close>.\<close>

definition with_server ::
  "'t server \<Rightarrow> attempt \<Rightarrow> nat \<Rightarrow> exn option \<times> event list \<times> sock list" where
  "with_server self a n =
     (case setsockopt_error a of
        Some e \<Rightarrow> (Some e, [CallSetsockopt], [])
      | None \<Rightarrow>
     (case bind_error a of
        Some e \<Rightarrow> (Some e, [CallSetsockopt, CallBind], [])
      | None \<Rightarrow>
     (case listen_error a of
        Some e \<Rightarrow> (Some e, [CallSetsockopt, CallBind, CallListen], [])
      | None \<Rightarrow>
     (case accept_loop self (accepts a) n of
        (r, tr, socks) \<Rightarrow>
          (r, [CallSetsockopt, CallBind, CallListen, PrintListening] @ tr, socks)))))"

text \<open>Lines 125 to 134: the \<^verbatim>\<open>with\<close> closes the listening socket when an exception leaves it.\<close>

definition listen_attempt ::
  "'t server \<Rightarrow> attempt \<Rightarrow> nat \<Rightarrow> exn option \<times> event list \<times> sock list" where
  "listen_attempt self a n =
     (case socket_error a of
        Some e \<Rightarrow> (Some e, [CallSocket], [])
      | None \<Rightarrow>
          (case with_server self a n of
             (None, tr, socks) \<Rightarrow> (None, CallSocket # tr, socks)
           | (Some e, tr, socks) \<Rightarrow> (Some e, CallSocket # tr @ [ServerClose], socks)))"

fun start_server ::
  "'t server \<Rightarrow> attempt list \<Rightarrow> nat \<Rightarrow> status \<times> event list \<times> sock list" where
  "start_server self [] n = (Running, [], [])"
| "start_server self (a # script) n =
     (case listen_attempt self a n of
        (None, tr, socks) \<Rightarrow> (Running, tr, socks)
      | (Some e, tr, socks) \<Rightarrow>
          if is_Exception e
          then (case start_server self script (n + length socks) of
                  (st, tr', socks') \<Rightarrow>
                    (st, tr @ [PrintServerError e, PrintTraceback] @ tr', socks @ socks'))
          else (Terminated e, tr, socks))"

subsection \<open>Notions the theorems use\<close>

text \<open>
  \<open>pending q\<close>: the bytes that arrive before the stream ends or the transport fails.
  \<open>clean q\<close>: the transport never fails, the stream just ends.
\<close>

fun pending :: "rx list \<Rightarrow> byte list" where
  "pending [] = []"
| "pending (Seg bs # q) = bs @ pending q"
| "pending (RxErr e # q) = []"

fun clean :: "rx list \<Rightarrow> bool" where
  "clean [] = True"
| "clean (Seg bs # q) = clean q"
| "clean (RxErr e # q) = False"

text \<open>A freshly accepted connection on which the given segments arrive.\<close>

definition incoming :: "byte list list \<Rightarrow> sock" where
  "incoming segs = \<lparr>inq = map Seg segs, rlog = [], sent = [], room = None, closed = False\<rparr>"




subsection \<open>A concrete server, for the examples\<close>

text \<open>
  A tensor with its device, its element type and its elements. The elements of the
  examples are integers of magnitude below 4096. Half precision has a significand of 11
  bits: it holds every integer up to 2048 and, from there to 4096, the even ones; an odd
  one lies half way between two of them and is rounded to the one with the even
  significand, which is the multiple of 4. \<open>half_round\<close> is that rounding, for such
  elements.
\<close>

datatype dtype = Float16 | Float32

record tensor =
  t_device :: string
  t_dtype :: dtype
  t_values :: "int list"

definition ex_tensor :: "int list \<Rightarrow> tensor" where
  "ex_tensor vs = \<lparr>t_device = ''cpu'', t_dtype = Float32, t_values = vs\<rparr>"

definition half_round :: "int \<Rightarrow> int" where
  "half_round v =
     (if \<bar>v\<bar> \<le> 2048 \<or> even v then v
      else if (v - 1) mod 4 = 0 then v - 1 else v + 1)"

definition ex_to_half :: "tensor \<Rightarrow> exn + tensor" where
  "ex_to_half t =
     Inr \<lparr>t_device = ''cuda'', t_dtype = Float16, t_values = map half_round (t_values t)\<rparr>"

text \<open>
  A layer that returns what a decoder layer returns: the new hidden states, the
  attention weights if asked for, the cache entry if asked for.
\<close>

definition ex_layer :: "tensor layer" where
  "ex_layer hidden_states kw =
     (case kw of
        (causal_mask, position_ids, past_key_values, output_attentions, use_cache, positions) \<Rightarrow>
          Inr ([hidden_states\<lparr>t_values := map (\<lambda>v. v + 1) (t_values hidden_states)\<rparr>]
               @ (if output_attentions then [hidden_states] else [])
               @ (if use_cache
                  then [past_key_values\<lparr>t_values := t_values past_key_values @ t_values hidden_states\<rparr>]
                  else [])))"

definition ex_input :: "bool \<Rightarrow> tensor list option \<Rightarrow> tensor input_data" where
  "ex_input uc pe =
     \<lparr>in_hidden_states = Some (ex_tensor [1, 2]),
      in_causal_mask = None,
      in_position_ids = Some (ex_tensor [0, 1]),
      in_past_key_values = Some (ex_tensor [2049]),
      in_output_attentions = False,
      in_use_cache = uc,
      in_cache_position = Some (ex_tensor [0, 1]),
      in_position_embeddings = pe\<rparr>"

text \<open>
  Three payloads decode: \<open>[1]\<close> to a request with \<open>use_cache\<close> set and position
  embeddings, \<open>[2]\<close> to the same with \<open>use_cache\<close> not set, \<open>[3]\<close> to the same as \<open>[1]\<close>
  with \<open>position_embeddings\<close> \<^verbatim>\<open>None\<close>.
\<close>

definition ex_loads :: "byte list \<Rightarrow> exn + tensor input_data" where
  "ex_loads data =
     (if data = [1] then Inr (ex_input True (Some [ex_tensor [1], ex_tensor [0]]))
      else if data = [2] then Inr (ex_input False (Some [ex_tensor [1], ex_tensor [0]]))
      else if data = [3] then Inr (ex_input True None)
      else Inl (PyException ''UnpicklingError''))"

definition ex_dumps :: "tensor \<times> tensor \<times> tensor \<Rightarrow> exn + byte list" where
  "ex_dumps out =
     (case out of (h, c, p) \<Rightarrow> Inr (map of_int (t_values h @ t_values c @ t_values p)))"

definition ex_server :: "tensor server" where
  "ex_server =
     \<lparr>to_half = ex_to_half, transformer_layers_split = [ex_layer, ex_layer],
      pickle_loads = ex_loads, pickle_dumps = ex_dumps\<rparr>"

text \<open>
  Three passes of the outer loop: the port is in use, then \<^verbatim>\<open>accept\<close> fails, then two
  connections are accepted.
\<close>

definition ex_bind_fails :: attempt where
  "ex_bind_fails =
     \<lparr>socket_error = None, setsockopt_error = None,
      bind_error = Some (OSError ''Address already in use''), listen_error = None,
      accepts = []\<rparr>"

definition ex_accept_fails :: attempt where
  "ex_accept_fails =
     \<lparr>socket_error = None, setsockopt_error = None, bind_error = None, listen_error = None,
      accepts = [AcceptError (OSError ''Too many open files'')]\<rparr>"

definition ex_two_clients :: attempt where
  "ex_two_clients =
     \<lparr>socket_error = None, setsockopt_error = None, bind_error = None, listen_error = None,
      accepts = [Connection (incoming [[0, 0, 0, 1], [3]]),
                 Connection (incoming [[0, 0, 0, 1], [1]])]\<rparr>"

section \<open>Properties of the framing\<close>

subsection \<open>Receiving\<close>

declare recv_loop.simps [simp del]

lemma recv_from_le: "recv_from n q = (Inr bs, q') \<Longrightarrow> length bs \<le> n"
  by (induction n q rule: recv_from.induct) (auto split: if_splits)

lemma recv_from_pending:
  "recv_from n q = (Inr bs, q') \<Longrightarrow> 0 < n \<Longrightarrow> pending q \<noteq> [] \<Longrightarrow>
     bs \<noteq> [] \<and> pending q = bs @ pending q'"
  by (induction n q rule: recv_from.induct) (auto split: if_splits)

lemma recv_from_pending_ok:
  "pending q \<noteq> [] \<Longrightarrow> \<exists>bs q'. recv_from n q = (Inr bs, q')"
  by (induction n q rule: recv_from.induct) (auto split: if_splits)

lemma recv_from_clean:
  "clean q \<Longrightarrow> \<exists>bs q'. recv_from n q = (Inr bs, q') \<and> clean q' \<and> pending q = bs @ pending q'"
  by (induction n q rule: recv_from.induct) (auto split: if_splits)

lemma recv_pending:
  assumes "0 < n" "pending (inq s) \<noteq> []"
  shows "\<exists>bs s1. recv n s = (Inr bs, s1) \<and> bs \<noteq> [] \<and> length bs \<le> n
           \<and> pending (inq s) = bs @ pending (inq s1)"
proof -
  from assms(2) obtain bs q' where r: "recv_from n (inq s) = (Inr bs, q')"
    using recv_from_pending_ok [of "inq s" n] by auto
  with assms recv_from_pending [OF r] recv_from_le [OF r] show ?thesis
    by (simp add: recv_def)
qed

lemma recv_clean:
  assumes "clean (inq s)"
  shows "\<exists>bs s1. recv n s = (Inr bs, s1) \<and> clean (inq s1)
           \<and> pending (inq s) = bs @ pending (inq s1)"
proof -
  from recv_from_clean [OF assms, of n] obtain bs q' where
    "recv_from n (inq s) = (Inr bs, q')" "clean q'" "pending (inq s) = bs @ pending q'"
    by blast
  then show ?thesis by (simp add: recv_def)
qed

lemma recv_le: "recv n s = (Inr bs, s1) \<Longrightarrow> length bs \<le> n"
  by (auto simp: recv_def split: prod.splits dest: recv_from_le)

lemma recv_rlog: "recv n s = (r, s1) \<Longrightarrow> rlog s1 = rlog s @ [(n, r)]"
  by (auto simp: recv_def split: prod.splits)

lemma recv_sent: "recv n s = (r, s1) \<Longrightarrow> sent s1 = sent s \<and> room s1 = room s \<and> closed s1 = closed s"
  by (auto simp: recv_def split: prod.splits)

text \<open>The loop returns only with exactly \<open>data_size\<close> bytes.\<close>

lemma recv_loop_exact:
  "recv_loop N chunks r s = (Inr cs, s') \<Longrightarrow> r \<le> N \<Longrightarrow>
     length (concat cs) + r = length (concat chunks) + N"
proof (induction N chunks r s rule: recv_loop.induct)
  case (1 N chunks r s)
  show ?case
  proof (cases "r < N")
    case False
    with "1.prems" show ?thesis by (simp add: recv_loop.simps [of N chunks r s])
  next
    case True
    obtain res s1 where rc: "recv (min (N - r) 2048) s = (res, s1)" by force
    with True "1.prems" obtain chunk where res: "res = Inr chunk" and ne: "chunk \<noteq> []"
      and rest: "recv_loop N (chunks @ [chunk]) (r + length chunk) s1 = (Inr cs, s')"
      by (cases res) (auto simp: recv_loop.simps [of N chunks r s] split: if_splits)
    from rc res have "length chunk \<le> min (N - r) 2048"
      by (auto dest: recv_le)
    with True have le: "r + length chunk \<le> N" by linarith
    from "1.IH" [OF True rc [symmetric] res ne rest le]
    show ?thesis by simp
  qed
qed

text \<open>When enough bytes arrive, the loop returns them, whatever the segments are.\<close>

lemma recv_loop_complete:
  "N - r \<le> length (pending (inq s)) \<Longrightarrow>
     \<exists>cs s'. recv_loop N chunks r s = (Inr (chunks @ cs), s')
        \<and> concat cs = take (N - r) (pending (inq s))"
proof (induction N chunks r s rule: recv_loop.induct)
  case (1 N chunks r s)
  show ?case
  proof (cases "r < N")
    case False
    then show ?thesis by (simp add: recv_loop.simps [of N chunks r s])
  next
    case True
    with "1.prems" have "pending (inq s) \<noteq> []" by auto
    with True obtain chunk s1 where rc: "recv (min (N - r) 2048) s = (Inr chunk, s1)"
      and ne: "chunk \<noteq> []" and le: "length chunk \<le> min (N - r) 2048"
      and pe: "pending (inq s) = chunk @ pending (inq s1)"
      using recv_pending [of "min (N - r) 2048" s] by auto
    have "length (pending (inq s)) = length chunk + length (pending (inq s1))"
      by (simp add: pe)
    with "1.prems" have pre: "N - (r + length chunk) \<le> length (pending (inq s1))"
      by linarith
    from "1.IH" [OF True rc [symmetric] refl ne pre] obtain cs s'
      where rl: "recv_loop N (chunks @ [chunk]) (r + length chunk) s1
                   = (Inr ((chunks @ [chunk]) @ cs), s')"
        and cc: "concat cs = take (N - (r + length chunk)) (pending (inq s1))"
      by blast
    have "recv_loop N chunks r s = (Inr (chunks @ (chunk # cs)), s')"
      using True rc ne rl by (simp add: recv_loop.simps [of N chunks r s])
    moreover have "concat (chunk # cs) = take (N - r) (pending (inq s))"
    proof -
      from le have "length chunk \<le> N - r" by simp
      then have "take (N - r) (chunk @ pending (inq s1))
                  = chunk @ take (N - r - length chunk) (pending (inq s1))"
        by simp
      then show ?thesis by (simp add: cc pe)
    qed
    ultimately show ?thesis by blast
  qed
qed

text \<open>When the stream ends too early, the loop raises.\<close>

lemma recv_loop_truncated:
  "clean (inq s) \<Longrightarrow> length (pending (inq s)) < N - r \<Longrightarrow>
     \<exists>s'. recv_loop N chunks r s = (Inl (RuntimeError ''socket connection broken''), s')"
proof (induction N chunks r s rule: recv_loop.induct)
  case (1 N chunks r s)
  from "1.prems" have lt: "r < N" by simp
  from recv_clean [OF "1.prems"(1), of "min (N - r) 2048"] obtain chunk s1 where
    rc: "recv (min (N - r) 2048) s = (Inr chunk, s1)" and c1: "clean (inq s1)"
    and pe: "pending (inq s) = chunk @ pending (inq s1)"
    by blast
  show ?case
  proof (cases "chunk = []")
    case True
    have "recv_loop N chunks r s = (Inl (RuntimeError ''socket connection broken''), s1)"
      by (subst recv_loop.simps) (simp add: lt rc True)
    then show ?thesis by blast
  next
    case False
    have "length (pending (inq s)) = length chunk + length (pending (inq s1))"
      by (simp add: pe)
    with "1.prems"(2) have sh: "length (pending (inq s1)) < N - (r + length chunk)"
      by linarith
    from "1.IH" [OF lt rc [symmetric] refl False c1 sh] obtain s' where
      "recv_loop N (chunks @ [chunk]) (r + length chunk) s1 =
         (Inl (RuntimeError ''socket connection broken''), s')" by blast
    then have "recv_loop N chunks r s = (Inl (RuntimeError ''socket connection broken''), s')"
      by (subst recv_loop.simps) (simp add: lt rc False)
    then show ?thesis by blast
  qed
qed

text \<open>The loop sends nothing, and asks for at most 2048 bytes at a time.\<close>

lemma recv_loop_sent:
  "recv_loop N chunks r s = (res, s') \<Longrightarrow> sent s' = sent s \<and> room s' = room s \<and> closed s' = closed s"
proof (induction N chunks r s rule: recv_loop.induct)
  case (1 N chunks r s)
  show ?case
  proof (cases "r < N")
    case False
    with "1.prems" show ?thesis by (simp add: recv_loop.simps [of N chunks r s])
  next
    case True
    obtain x s1 where rc: "recv (min (N - r) 2048) s = (x, s1)" by force
    note same = recv_sent [OF rc]
    show ?thesis
    proof (cases x)
      case (Inl e)
      with True rc "1.prems" same show ?thesis
        by (simp add: recv_loop.simps [of N chunks r s])
    next
      case (Inr chunk)
      show ?thesis
      proof (cases "chunk = []")
        case True
        with \<open>r < N\<close> rc Inr "1.prems" same show ?thesis
          by (simp add: recv_loop.simps [of N chunks r s])
      next
        case False
        with \<open>r < N\<close> rc Inr "1.prems"
        have "recv_loop N (chunks @ [chunk]) (r + length chunk) s1 = (res, s')"
          by (simp add: recv_loop.simps [of N chunks r s])
        from "1.IH" [OF \<open>r < N\<close> rc [symmetric] Inr False this] same
        show ?thesis by simp
      qed
    qed
  qed
qed

lemma recv_loop_rlog:
  "recv_loop N chunks r s = (res, s') \<Longrightarrow>
     \<exists>new. rlog s' = rlog s @ new \<and>
       (\<forall>(n, x) \<in> set new. 0 < n \<and> n \<le> 2048 \<and> (\<forall>bs. x = Inr bs \<longrightarrow> length bs \<le> n))"
proof (induction N chunks r s rule: recv_loop.induct)
  case (1 N chunks r s)
  show ?case
  proof (cases "r < N")
    case False
    with "1.prems" show ?thesis by (simp add: recv_loop.simps [of N chunks r s])
  next
    case True
    obtain x s1 where rc: "recv (min (N - r) 2048) s = (x, s1)" by force
    have lg: "rlog s1 = rlog s @ [(min (N - r) 2048, x)]" by (rule recv_rlog [OF rc])
    have ok: "0 < min (N - r) 2048 \<and> min (N - r) 2048 \<le> 2048
        \<and> (\<forall>bs. x = Inr bs \<longrightarrow> length bs \<le> min (N - r) 2048)"
      using True rc by (auto dest: recv_le)
    show ?thesis
    proof (cases "\<exists>chunk. x = Inr chunk \<and> chunk \<noteq> []")
      case False
      with True rc "1.prems" have "s' = s1"
        by (cases x) (auto simp: recv_loop.simps [of N chunks r s])
      with lg ok show ?thesis by simp
    next
      case yes: True
      then obtain chunk where x: "x = Inr chunk" and ne: "chunk \<noteq> []" by blast
      with True rc "1.prems"
      have "recv_loop N (chunks @ [chunk]) (r + length chunk) s1 = (res, s')"
        by (simp add: recv_loop.simps [of N chunks r s])
      from "1.IH" [OF True rc [symmetric] x ne this] obtain new where
        n1: "rlog s' = rlog s1 @ new"
        and n2: "\<forall>(n, x) \<in> set new. 0 < n \<and> n \<le> 2048 \<and> (\<forall>bs. x = Inr bs \<longrightarrow> length bs \<le> n)"
        by blast
      from n1 lg have "rlog s' = rlog s @ ((min (N - r) 2048, x) # new)" by simp
      moreover from n2 ok
      have "\<forall>(n, x) \<in> set ((min (N - r) 2048, x) # new).
              0 < n \<and> n \<le> 2048 \<and> (\<forall>bs. x = Inr bs \<longrightarrow> length bs \<le> n)"
        by simp
      ultimately show ?thesis by blast
    qed
  qed
qed

subsection \<open>The length header\<close>

lemma unat_byte: "unat (of_nat k :: byte) = k mod 256"
  by (simp add: unat_of_nat)

lemma be32_digits:
  fixes n :: nat
  assumes "n < 4294967296"
  shows "n div 16777216 mod 256 * 16777216 + n div 65536 mod 256 * 65536
      + n div 256 mod 256 * 256 + n mod 256 = n"
proof -
  define a where "a = n div 256"
  define b where "b = a div 256"
  define c where "c = b div 256"
  have q: "n div 65536 = b" "n div 16777216 = c"
    by (simp_all add: a_def b_def c_def div_mult2_eq)
  have e0: "n = 256 * a + n mod 256" by (simp add: a_def)
  have e1: "a = 256 * b + a mod 256" by (simp add: b_def)
  have e2: "b = 256 * c + b mod 256" by (simp add: c_def)
  from assms have "c < 256" unfolding q(2) [symmetric] by simp
  then have c: "c mod 256 = c" by simp
  have "c * 16777216 + b mod 256 * 65536 + a mod 256 * 256 + n mod 256 = n"
    using e0 e1 e2 by linarith
  then show ?thesis by (simp add: q c a_def [symmetric])
qed

lemma struct_roundtrip:
  assumes "n < 2 ^ 32"
  shows "\<exists>h. struct_pack_I n = Inr h \<and> length h = 4 \<and> struct_unpack_I h = Inr n"
proof -
  let ?h = "[of_nat (n div 2 ^ 24), of_nat (n div 2 ^ 16), of_nat (n div 2 ^ 8), of_nat n] :: byte list"
  have p: "struct_pack_I n = Inr ?h"
    using assms by (simp add: struct_pack_I_def)
  have u: "struct_unpack_I ?h = Inr (n div 16777216 mod 256 * 16777216 + n div 65536 mod 256 * 65536
      + n div 256 mod 256 * 256 + n mod 256)"
    by (simp add: unat_byte)
  have "n < 4294967296" using assms by simp
  from be32_digits [OF this] have "struct_unpack_I ?h = Inr n"
    by (simp only: u)
  with p show ?thesis by simp
qed


subsection \<open>Frames\<close>

lemma read_frame_after_header:
  assumes "recv 4 s = (Inr header, s1)" "struct_unpack_I header = Inr N"
  shows "read_frame s =
     (case recv_loop N [] 0 s1 of
        (Inl e, s2) \<Rightarrow> (Inl e, s2)
      | (Inr chunks, s2) \<Rightarrow> (Inr (concat chunks), s2))"
  using assms by (simp add: read_frame_def)

text \<open>
  The header in one segment, the payload in any segments: the frame is read whole.
\<close>

lemma read_frame_segments:
  assumes "inq s = Seg header # q" "length header = 4" "struct_unpack_I header = Inr N"
    and "N \<le> length (pending q)"
  shows "fst (read_frame s) = Inr (take N (pending q))"
proof -
  let ?s1 = "s\<lparr>inq := q, rlog := rlog s @ [(4, Inr header)]\<rparr>"
  from assms(1,2) have "header \<noteq> []" by auto
  with assms(1,2) have r: "recv 4 s = (Inr header, ?s1)"
    by (simp add: recv_def)
  from assms(4) have "N - 0 \<le> length (pending (inq ?s1))" by simp
  from recv_loop_complete [OF this, of "[]"] obtain cs s' where
    "recv_loop N [] 0 ?s1 = (Inr cs, s')" "concat cs = take N (pending q)"
    by auto
  with read_frame_after_header [OF r assms(3)] show ?thesis by simp
qed

lemma write_frame_ok:
  assumes "length b < 2 ^ 32" "room w = None"
  shows "\<exists>header. struct_pack_I (length b) = Inr header \<and> length header = 4
           \<and> struct_unpack_I header = Inr (length b)
           \<and> write_frame b w = (Inr (), w\<lparr>sent := sent w @ [header, b]\<rparr>)"
proof -
  from struct_roundtrip [OF assms(1)] obtain header where
    h: "struct_pack_I (length b) = Inr header" "length header = 4"
       "struct_unpack_I header = Inr (length b)" by blast
  with assms(2) have "write_frame b w = (Inr (), w\<lparr>sent := sent w @ [header, b]\<rparr>)"
    by (simp add: write_frame_def sendall_def)
  with h show ?thesis by blast
qed

text \<open>
  Claim C3. For every byte sequence \<open>b\<close> of length 0 to 65536, \<open>write_frame b\<close> sends a
  header of 4 bytes, the big-endian length of \<open>b\<close>, and then \<open>b\<close>; and reading a frame
  from what it sent gives \<open>b\<close> back. The receiving end is the connection on which the
  data of each \<open>sendall\<close> arrives as one segment. (\<open>read_frame_segments\<close> above allows any
  segments for the payload.)
\<close>

theorem frame_roundtrip:
  assumes "length b \<le> 65536"
  shows "\<exists>header. length header = 4
           \<and> struct_unpack_I header = Inr (length b)
           \<and> fst (write_frame b (incoming [])) = Inr ()
           \<and> sent (snd (write_frame b (incoming []))) = [header, b]
           \<and> fst (read_frame (incoming (sent (snd (write_frame b (incoming [])))))) = Inr b"
proof -
  have lt: "length b < 2 ^ 32" using assms by simp
  have "room (incoming []) = None" by (simp add: incoming_def)
  from write_frame_ok [OF lt this] obtain header where
    h: "length header = 4" "struct_unpack_I header = Inr (length b)"
    and w: "write_frame b (incoming []) = (Inr (), (incoming [])\<lparr>sent := sent (incoming []) @ [header, b]\<rparr>)"
    by blast
  have s: "sent (snd (write_frame b (incoming []))) = [header, b]"
    unfolding w by (simp add: incoming_def)
  have "inq (incoming [header, b]) = Seg header # [Seg b]" by (simp add: incoming_def)
  from read_frame_segments [OF this h, of ]
  have "fst (read_frame (incoming [header, b])) = Inr b" by simp
  with w s h show ?thesis by simp
qed

text \<open>
  The round trip of three bytes.
\<close>

theorem frame_roundtrip_witness:
  "length [1, 2, 3 :: byte] \<le> 65536
   \<and> fst (write_frame [1, 2, 3] (incoming [])) = Inr ()
   \<and> sent (snd (write_frame [1, 2, 3] (incoming []))) = [[0, 0, 0, 3], [1, 2, 3]]
   \<and> fst (read_frame (incoming (sent (snd (write_frame [1, 2, 3] (incoming [])))))) = Inr [1, 2, 3]"
proof -
  have "sent (snd (write_frame [1, 2, 3] (incoming []))) = [[0, 0, 0, 3], [1, 2, 3]]"
    by (simp add: write_frame_def struct_pack_I_def sendall_def incoming_def)
  with frame_roundtrip [of "[1, 2, 3]"] show ?thesis by auto
qed

text \<open>
  Claim C4. On a connection whose header announces \<open>N\<close> bytes and whose stream ends
  before \<open>N\<close> payload bytes have arrived, reading the frame raises
  \<^verbatim>\<open>RuntimeError("socket connection broken")\<close>; and whenever reading returns a
  payload, it has exactly \<open>N\<close> bytes.
\<close>

theorem truncated_frame:
  assumes "recv 4 s = (Inr header, s1)" "struct_unpack_I header = Inr N"
  shows "(clean (inq s1) \<and> length (pending (inq s1)) < N \<longrightarrow>
            fst (read_frame s) = Inl (RuntimeError ''socket connection broken''))
       \<and> (\<forall>data. fst (read_frame s) = Inr data \<longrightarrow> length data = N)"
proof (intro conjI impI allI)
  assume "clean (inq s1) \<and> length (pending (inq s1)) < N"
  then have "clean (inq s1)" "length (pending (inq s1)) < N - 0" by simp_all
  from recv_loop_truncated [OF this, of "[]"] obtain s' where
    "recv_loop N [] 0 s1 = (Inl (RuntimeError ''socket connection broken''), s')" by blast
  with read_frame_after_header [OF assms]
  show "fst (read_frame s) = Inl (RuntimeError ''socket connection broken'')" by simp
next
  fix data
  assume d: "fst (read_frame s) = Inr data"
  obtain res s2 where l: "recv_loop N [] 0 s1 = (res, s2)" by force
  with d read_frame_after_header [OF assms] obtain chunks where
    "res = Inr chunks" "data = concat chunks"
    by (cases res) auto
  with l recv_loop_exact [of N "[]" 0 s1 chunks s2] show "length data = N" by simp
qed

text \<open>
  A header announcing 5 bytes, followed by 2 bytes and the end of the stream.
\<close>

theorem truncated_frame_witness:
  "recv 4 (incoming [[0, 0, 0, 5], [1, 2]]) = (Inr [0, 0, 0, 5], (incoming [[1, 2]])\<lparr>rlog := [(4, Inr [0, 0, 0, 5])]\<rparr>)
   \<and> struct_unpack_I [0, 0, 0, 5] = Inr 5
   \<and> clean (inq ((incoming [[1, 2]])\<lparr>rlog := [(4, Inr [0, 0, 0, 5])]\<rparr>))
   \<and> length (pending (inq ((incoming [[1, 2]])\<lparr>rlog := [(4, Inr [0, 0, 0, 5])]\<rparr>))) < 5
   \<and> fst (read_frame (incoming [[0, 0, 0, 5], [1, 2]])) = Inl (RuntimeError ''socket connection broken'')"
proof -
  have r: "recv 4 (incoming [[0, 0, 0, 5], [1, 2]])
             = (Inr [0, 0, 0, 5], (incoming [[1, 2]])\<lparr>rlog := [(4, Inr [0, 0, 0, 5])]\<rparr>)"
    by (simp add: recv_def incoming_def)
  have u: "struct_unpack_I [0, 0, 0, 5] = Inr 5" by simp
  have c: "clean (inq ((incoming [[1, 2]])\<lparr>rlog := [(4, Inr [0, 0, 0, 5])]\<rparr>))"
    "length (pending (inq ((incoming [[1, 2]])\<lparr>rlog := [(4, Inr [0, 0, 0, 5])]\<rparr>))) < 5"
    by (simp_all add: incoming_def)
  from truncated_frame [OF r u] c r u show ?thesis by blast
qed

text \<open>
  Claim C10. When the header announces 0 bytes, reading the frame calls \<open>recv\<close> for
  the header only, returns the empty payload, and the handler goes on with that payload:
  it is given to the decoder, whose exception, if it raises, is the one the handler
  meets.
\<close>

theorem empty_frame:
  assumes "recv 4 s = (Inr header, s1)" "struct_unpack_I header = Inr 0"
  shows "read_frame s = (Inr [], s1)
       \<and> rlog s1 = rlog s @ [(4, Inr header)]
       \<and> handle_try self s = handle_payload self [] s1
       \<and> (\<forall>e. pickle_loads self [] = Inl e \<longrightarrow> handle_try self s = (Inl e, s1))"
proof -
  have "recv_loop 0 [] 0 s1 = (Inr [], s1)" by (simp add: recv_loop.simps)
  with read_frame_after_header [OF assms] have r: "read_frame s = (Inr [], s1)" by simp
  then have h: "handle_try self s = handle_payload self [] s1"
    by (simp add: handle_try_def)
  have "\<forall>e. pickle_loads self [] = Inl e \<longrightarrow> handle_payload self [] s1 = (Inl e, s1)"
    by (simp add: handle_payload_def build_response_def bind_exn_def)
  with r h recv_rlog [OF assms(1)] show ?thesis by simp
qed

text \<open>
  The frame of length 0 on the example server, whose decoder rejects the empty payload.
\<close>

theorem empty_frame_witness:
  "recv 4 (incoming [[0, 0, 0, 0]]) = (Inr [0, 0, 0, 0], (incoming [])\<lparr>rlog := [(4, Inr [0, 0, 0, 0])]\<rparr>)
   \<and> struct_unpack_I [0, 0, 0, 0] = Inr 0
   \<and> read_frame (incoming [[0, 0, 0, 0]]) = (Inr [], (incoming [])\<lparr>rlog := [(4, Inr [0, 0, 0, 0])]\<rparr>)
   \<and> pickle_loads ex_server [] = Inl (PyException ''UnpicklingError'')
   \<and> handle_try ex_server (incoming [[0, 0, 0, 0]])
       = (Inl (PyException ''UnpicklingError''), (incoming [])\<lparr>rlog := [(4, Inr [0, 0, 0, 0])]\<rparr>)"
proof -
  have r: "recv 4 (incoming [[0, 0, 0, 0]])
             = (Inr [0, 0, 0, 0], (incoming [])\<lparr>rlog := [(4, Inr [0, 0, 0, 0])]\<rparr>)"
    by (simp add: recv_def incoming_def)
  have u: "struct_unpack_I [0, 0, 0, 0] = Inr 0" by simp
  have p: "pickle_loads ex_server [] = Inl (PyException ''UnpicklingError'')"
    by (simp add: ex_server_def ex_loads_def)
  from empty_frame [OF r u, of ex_server]
  have a: "read_frame (incoming [[0, 0, 0, 0]])
             = (Inr [], (incoming [])\<lparr>rlog := [(4, Inr [0, 0, 0, 0])]\<rparr>)"
    and b: "\<forall>e. pickle_loads ex_server [] = Inl e \<longrightarrow>
              handle_try ex_server (incoming [[0, 0, 0, 0]])
                = (Inl e, (incoming [])\<lparr>rlog := [(4, Inr [0, 0, 0, 0])]\<rparr>)"
    by blast+
  from b p have "handle_try ex_server (incoming [[0, 0, 0, 0]])
       = (Inl (PyException ''UnpicklingError''), (incoming [])\<lparr>rlog := [(4, Inr [0, 0, 0, 0])]\<rparr>)"
    by blast
  with a r u p show ?thesis by blast
qed

lemma ex_read_frame:
  "read_frame (incoming [[0, 0, 0, 1], [x]])
     = (Inr [x], \<lparr>inq = [], rlog = [(4, Inr [0, 0, 0, 1]), (1, Inr [x])], sent = [],
                   room = None, closed = False\<rparr>)"
  "read_frame ((incoming [[0, 0, 0, 1], [x]])\<lparr>room := Some k\<rparr>)
     = (Inr [x], \<lparr>inq = [], rlog = [(4, Inr [0, 0, 0, 1]), (1, Inr [x])], sent = [],
                   room = Some k, closed = False\<rparr>)"
  by (simp_all add: read_frame_def recv_def incoming_def recv_loop.simps)

lemma ex_run_model:
  "run_model ex_server (ex_input True (Some [ex_tensor [1], ex_tensor [0]]))
     = Inr (Some (\<lparr>t_device = ''cuda'', t_dtype = Float16, t_values = [3, 4]\<rparr>,
                  \<lparr>t_device = ''cuda'', t_dtype = Float16, t_values = [2048, 2, 3]\<rparr>,
                  \<lparr>t_device = ''cuda'', t_dtype = Float16, t_values = [2048]\<rparr>))"
  "run_model ex_server (ex_input False (Some [ex_tensor [1], ex_tensor [0]]))
     = Inl (UnboundLocalError ''next_decoder_cache'')"
  "run_model ex_server (ex_input True None) = Inr None"
  by (simp_all add: ex_server_def ex_input_def run_model_def bind_exn_def to_device_half_def
        ex_to_half_def ex_tensor_def ex_layer_def tuple_get_def half_round_def)

lemma ex_build_response:
  "build_response ex_server [1] = Inr [3, 4, 0, 2, 3, 0]"
  "build_response ex_server [2] = Inl (UnboundLocalError ''next_decoder_cache'')"
  "build_response ex_server [3] = Inl (UnboundLocalError ''output'')"
proof -
  have l: "pickle_loads ex_server [1] = Inr (ex_input True (Some [ex_tensor [1], ex_tensor [0]]))"
    "pickle_loads ex_server [2] = Inr (ex_input False (Some [ex_tensor [1], ex_tensor [0]]))"
    "pickle_loads ex_server [3] = Inr (ex_input True None)"
    by (simp_all add: ex_server_def ex_loads_def)
  have d: "pickle_dumps ex_server = ex_dumps" by (simp add: ex_server_def)
  show "build_response ex_server [1] = Inr [3, 4, 0, 2, 3, 0]"
    by (simp add: build_response_def l ex_run_model bind_exn_def d ex_dumps_def)
  show "build_response ex_server [2] = Inl (UnboundLocalError ''next_decoder_cache'')"
    by (simp add: build_response_def l ex_run_model bind_exn_def)
  show "build_response ex_server [3] = Inl (UnboundLocalError ''output'')"
    by (simp add: build_response_def l ex_run_model bind_exn_def)
qed

lemma ex_handle_client_ok:
  "handle_client ex_server (incoming [[0, 0, 0, 1], [1]])
     = (Returned None,
        \<lparr>inq = [], rlog = [(4, Inr [0, 0, 0, 1]), (1, Inr [1])],
           sent = [[0, 0, 0, 6], [3, 4, 0, 2, 3, 0]], room = None, closed = True\<rparr>)"
  by (simp add: handle_client_def handle_try_def ex_read_frame handle_payload_def
        ex_build_response write_frame_def struct_pack_I_def sendall_def close_def)


text \<open>
  Claim C7, where the code departs from it. The header is read by one call of
  \<open>recv 4\<close>, which may return fewer than 4 bytes. On a connection that delivers the
  header \<open>[0, 0, 0, 1]\<close> in two segments of 2 bytes, that call consumes 2 bytes,
  unpacking them raises, and the frame is not read; the same bytes with the header in
  one segment are handled. The payload loop, in contrast, does go on after a short read
  (\<open>recv_loop_complete\<close>), never asks for more than 2048 bytes (\<open>recv_loop_rlog\<close>)
  and returns exactly the announced number of bytes (\<open>recv_loop_exact\<close>).
\<close>

theorem split_header_rejected:
  "read_frame (incoming [[0, 0], [0, 1], [1]])
     = (Inl StructError,
        \<lparr>inq = [Seg [0, 1], Seg [1]], rlog = [(4, Inr [0, 0])], sent = [], room = None,
           closed = False\<rparr>)
   \<and> handle_client ex_server (incoming [[0, 0], [0, 1], [1]])
     = (Returned (Some StructError),
        \<lparr>inq = [Seg [0, 1], Seg [1]], rlog = [(4, Inr [0, 0])], sent = [], room = None,
           closed = True\<rparr>)
   \<and> fst (handle_client ex_server (incoming [[0, 0, 0, 1], [1]])) = Returned None"
  by (simp add: ex_handle_client_ok)
     (simp add: handle_client_def handle_try_def read_frame_def recv_def incoming_def close_def)

section \<open>Properties of the connection handler\<close>

lemma read_frame_sent:
  assumes "read_frame s = (r, s1)"
  shows "sent s1 = sent s \<and> room s1 = room s"
proof -
  obtain x sa where rc: "recv 4 s = (x, sa)" by force
  note a = recv_sent [OF rc]
  show ?thesis
  proof (cases x)
    case (Inl e)
    with rc assms a show ?thesis by (simp add: read_frame_def)
  next
    case (Inr header)
    show ?thesis
    proof (cases "struct_unpack_I header")
      case (Inl e)
      with rc assms a \<open>x = Inr header\<close> show ?thesis by (simp add: read_frame_def)
    next
      case (Inr N)
      obtain y sb where l: "recv_loop N [] 0 sa = (y, sb)" by force
      from assms rc \<open>x = Inr header\<close> Inr l have "s1 = sb"
        by (cases y) (simp_all add: read_frame_def)
      with recv_loop_sent [OF l] a show ?thesis by simp
    qed
  qed
qed







lemma sent_close: "sent (close s) = sent s"
  by (simp add: close_def)




lemma ex_handle_client_fail:
  "handle_try ex_server (incoming [[0, 0, 0, 1], [2]])
     = (Inl (UnboundLocalError ''next_decoder_cache''),
        \<lparr>inq = [], rlog = [(4, Inr [0, 0, 0, 1]), (1, Inr [2])], sent = [], room = None,
           closed = False\<rparr>)"
  "handle_try ex_server (incoming [[0, 0, 0, 1], [3]])
     = (Inl (UnboundLocalError ''output''),
        \<lparr>inq = [], rlog = [(4, Inr [0, 0, 0, 1]), (1, Inr [3])], sent = [], room = None,
           closed = False\<rparr>)"
  by (simp_all add: handle_try_def ex_read_frame handle_payload_def ex_build_response)




text \<open>Without \<open>use_cache\<close> the loop never assigns \<open>next_decoder_cache\<close>.\<close>

lemma run_layers_no_cache:
  "run_layers ls (m, pos, pkv, oa, False, rest) h ndc = Inr (h', ndc') \<Longrightarrow> ndc' = ndc"
  by (induction ls arbitrary: h) (auto simp: bind_exn_def split: sum.splits)

lemma run_layers_append:
  "run_layers (xs @ ys) kw h ndc =
     bind_exn (run_layers xs kw h ndc) (\<lambda>(h1, n1). run_layers ys kw h1 n1)"
  by (induction xs arbitrary: h ndc) (auto simp: bind_exn_def split: sum.splits prod.splits)

text \<open>With \<open>use_cache\<close>, what the loop leaves is what the last layer returned.\<close>

lemma run_layers_last:
  assumes "run_layers (ls @ [l]) (m, pos, pkv, oa, True, rest) h ndc = Inr (h', ndc')"
  shows "\<exists>h0 n0 outs c. run_layers ls (m, pos, pkv, oa, True, rest) h ndc = Inr (h0, n0)
     \<and> l h0 (m, pos, pkv, oa, True, rest) = Inr outs
     \<and> tuple_get outs 0 = Inr h'
     \<and> tuple_get outs (if oa then 2 else 1) = Inr c
     \<and> ndc' = Some c"
  using assms
  by (auto simp: run_layers_append bind_exn_def split: sum.splits prod.splits)

lemma run_model_Some:
  assumes "run_model self input_data = Inr (Some (h, c, p'))"
  shows "in_use_cache input_data
       \<and> transformer_layers_split self \<noteq> []
       \<and> (\<exists>pe. in_position_embeddings input_data = Some pe)
       \<and> (\<exists>p. in_past_key_values input_data = Some p \<and> to_half self p = Inr p')"
proof -
  from assms obtain pe where pe: "in_position_embeddings input_data = Some pe"
    by (cases "in_position_embeddings input_data")
       (auto simp: run_model_def bind_exn_def split: sum.splits)
  from assms pe obtain hs pos pkv cp m pes hf where
    k: "to_device_half self (in_past_key_values input_data) = Inr pkv"
    and rl: "run_layers (transformer_layers_split self)
               (m, pos, pkv, in_output_attentions input_data, in_use_cache input_data, cp, pes)
               hs None = Inr (hf, Some c)"
    and p: "p' = pkv"
    by (auto simp: run_model_def bind_exn_def split: sum.splits option.splits)
  from k have "\<exists>p. in_past_key_values input_data = Some p \<and> to_half self p = Inr pkv"
    by (auto simp: to_device_half_def split: option.splits)
  moreover have "in_use_cache input_data"
  proof (rule ccontr)
    assume "\<not> in_use_cache input_data"
    with rl run_layers_no_cache [of "transformer_layers_split self" m pos pkv
        "in_output_attentions input_data" "(cp, pes)" hs None hf "Some c"]
    show False by simp
  qed
  moreover from rl have "transformer_layers_split self \<noteq> []" by auto
  ultimately show ?thesis using pe p by blast
qed

lemma run_model_no_embeddings:
  "in_position_embeddings input_data = None \<Longrightarrow> run_model self input_data \<noteq> Inr (Some out)"
  by (auto simp: run_model_def bind_exn_def split: sum.splits)

lemma handle_client_decoded:
  assumes "read_frame s = (Inr data, s1)" "pickle_loads self data = Inr input_data"
  shows "handle_try self s =
     (case run_model self input_data of
        Inl e \<Rightarrow> (Inl e, s1)
      | Inr None \<Rightarrow> (Inl (UnboundLocalError ''output''), s1)
      | Inr (Some out) \<Rightarrow>
          (case pickle_dumps self out of
             Inl e \<Rightarrow> (Inl e, s1)
           | Inr result \<Rightarrow> write_frame result s1))"
  using assms
  by (simp add: handle_try_def handle_payload_def build_response_def bind_exn_def
        split: sum.splits option.splits)

lemma handle_try_failed:
  assumes "handle_try self s = (Inl e, s1)"
  shows "handle_client self s = (if is_Exception e then Returned (Some e) else Raised e, close s1)"
  using assms by (simp add: handle_client_def)

text \<open>
  Claim C1, where the code departs from it. For a request whose
  \<open>position_embeddings\<close> is \<^verbatim>\<open>None\<close>, the layers are not run and \<open>output\<close> is never
  assigned: unless an earlier conversion raises, line 111 raises
  \<^verbatim>\<open>UnboundLocalError\<close>, which is caught and printed. In both cases no response is
  sent. (The server goes on: the exception is of class \<^verbatim>\<open>Exception\<close>.)
\<close>

theorem absent_position_embeddings:
  assumes "read_frame s = (Inr data, s1)" "pickle_loads self data = Inr input_data"
    and "in_position_embeddings input_data = None"
  shows "(case run_model self input_data of
            Inl e \<Rightarrow> handle_try self s = (Inl e, s1)
          | Inr output \<Rightarrow>
              output = None
              \<and> handle_client self s = (Returned (Some (UnboundLocalError ''output'')), close s1))
       \<and> sent (snd (handle_client self s)) = sent s"
proof (cases "run_model self input_data")
  case (Inl e)
  with handle_client_decoded [OF assms(1,2)] have t: "handle_try self s = (Inl e, s1)" by simp
  from handle_try_failed [OF t] read_frame_sent [OF assms(1)] Inl t show ?thesis
    by (simp add: sent_close)
next
  case (Inr v)
  with run_model_no_embeddings [OF assms(3), of self] have n: "v = None"
    by (cases v) auto
  with Inr handle_client_decoded [OF assms(1,2)]
  have t: "handle_try self s = (Inl (UnboundLocalError ''output''), s1)" by simp
  from handle_try_failed [OF t] read_frame_sent [OF assms(1)] Inr n show ?thesis
    by (simp add: sent_close)
qed

text \<open>
  The request of payload \<open>[3]\<close> on the example server.
\<close>

theorem absent_position_embeddings_witness:
  "read_frame (incoming [[0, 0, 0, 1], [3]])
     = (Inr [3], \<lparr>inq = [], rlog = [(4, Inr [0, 0, 0, 1]), (1, Inr [3])], sent = [],
                   room = None, closed = False\<rparr>)
   \<and> pickle_loads ex_server [3] = Inr (ex_input True None)
   \<and> in_position_embeddings (ex_input True None) = None
   \<and> run_model ex_server (ex_input True None) = Inr None
   \<and> handle_client ex_server (incoming [[0, 0, 0, 1], [3]])
     = (Returned (Some (UnboundLocalError ''output'')),
        \<lparr>inq = [], rlog = [(4, Inr [0, 0, 0, 1]), (1, Inr [3])], sent = [], room = None,
           closed = True\<rparr>)"
proof -
  have l: "pickle_loads ex_server [3] = Inr (ex_input True None)"
    by (simp add: ex_server_def ex_loads_def)
  have n: "in_position_embeddings (ex_input True None) = None"
    by (simp add: ex_input_def)
  from absent_position_embeddings [OF ex_read_frame(1) l n] ex_run_model(3)
  have "handle_client ex_server (incoming [[0, 0, 0, 1], [3]])
     = (Returned (Some (UnboundLocalError ''output'')),
        close \<lparr>inq = [], rlog = [(4, Inr [0, 0, 0, 1]), (1, Inr [3])], sent = [], room = None,
           closed = False\<rparr>)"
    by simp
  with l n ex_run_model(3) ex_read_frame(1) [of 3] show ?thesis
    by (simp add: close_def)
qed

text \<open>
  Claim C2, where the code departs from it. \<open>next_decoder_cache\<close> is assigned only
  inside \<^verbatim>\<open>if use_cache\<close>, so for a request with \<open>use_cache\<close> not set the model never
  yields an output: the handler fails and sends nothing. No response with an absent
  \<open>next_cache\<close> is ever produced. (With \<open>use_cache\<close> set, the entry returned is the
  last layer's: \<open>run_layers_last\<close> above.)
\<close>

theorem use_cache_unset_fails:
  assumes "read_frame s = (Inr data, s1)" "pickle_loads self data = Inr input_data"
    and "\<not> in_use_cache input_data"
  shows "(\<forall>out. run_model self input_data \<noteq> Inr (Some out))
       \<and> (\<exists>e. handle_try self s = (Inl e, s1))
       \<and> fst (handle_client self s) \<noteq> Returned None
       \<and> sent (snd (handle_client self s)) = sent s"
proof -
  have no: "\<forall>out. run_model self input_data \<noteq> Inr (Some out)"
  proof (intro allI notI)
    fix out assume "run_model self input_data = Inr (Some out)"
    with run_model_Some [of self input_data "fst out" "fst (snd out)" "snd (snd out)"] assms(3)
    show False by simp
  qed
  with handle_client_decoded [OF assms(1,2)] obtain e where t: "handle_try self s = (Inl e, s1)"
    by (cases "run_model self input_data") (auto split: option.splits)
  from handle_try_failed [OF t] read_frame_sent [OF assms(1)] no t show ?thesis
    by (simp add: sent_close)
qed

text \<open>
  The request of payload \<open>[2]\<close> on the example server: line 106 raises.
\<close>

theorem use_cache_unset_fails_witness:
  "read_frame (incoming [[0, 0, 0, 1], [2]])
     = (Inr [2], \<lparr>inq = [], rlog = [(4, Inr [0, 0, 0, 1]), (1, Inr [2])], sent = [],
                   room = None, closed = False\<rparr>)
   \<and> pickle_loads ex_server [2] = Inr (ex_input False (Some [ex_tensor [1], ex_tensor [0]]))
   \<and> \<not> in_use_cache (ex_input False (Some [ex_tensor [1], ex_tensor [0]]))
   \<and> fst (handle_client ex_server (incoming [[0, 0, 0, 1], [2]]))
       = Returned (Some (UnboundLocalError ''next_decoder_cache''))
   \<and> sent (snd (handle_client ex_server (incoming [[0, 0, 0, 1], [2]]))) = []"
proof -
  have l: "pickle_loads ex_server [2] = Inr (ex_input False (Some [ex_tensor [1], ex_tensor [0]]))"
    by (simp add: ex_server_def ex_loads_def)
  have n: "\<not> in_use_cache (ex_input False (Some [ex_tensor [1], ex_tensor [0]]))"
    by (simp add: ex_input_def)
  have f: "fst (handle_client ex_server (incoming [[0, 0, 0, 1], [2]]))
       = Returned (Some (UnboundLocalError ''next_decoder_cache''))"
    by (simp add: handle_client_def ex_handle_client_fail)
  from use_cache_unset_fails [OF ex_read_frame(1) l n]
  have "sent (snd (handle_client ex_server (incoming [[0, 0, 0, 1], [2]])))
          = sent (incoming [[0, 0, 0, 1], [2]])" by simp
  then have "sent (snd (handle_client ex_server (incoming [[0, 0, 0, 1], [2]]))) = []"
    by (simp add: incoming_def)
  with l n f ex_read_frame(1) [of 2] show ?thesis by simp
qed




section \<open>Properties of the accept loop and of the restart\<close>










lemma ex_handle_client_absent:
  "handle_client ex_server (incoming [[0, 0, 0, 1], [3]])
     = (Returned (Some (UnboundLocalError ''output'')),
        \<lparr>inq = [], rlog = [(4, Inr [0, 0, 0, 1]), (1, Inr [3])], sent = [], room = None,
           closed = True\<rparr>)"
  by (simp add: handle_client_def ex_handle_client_fail close_def)

lemma ex_start_server:
  "start_server ex_server [ex_bind_fails, ex_accept_fails, ex_two_clients] 0
     = (Running,
        [CallSocket, CallSetsockopt, CallBind, ServerClose,
         PrintServerError (OSError ''Address already in use''), PrintTraceback,
         CallSocket, CallSetsockopt, CallBind, CallListen, PrintListening, CallAccept,
         ServerClose,
         PrintServerError (OSError ''Too many open files''), PrintTraceback,
         CallSocket, CallSetsockopt, CallBind, CallListen, PrintListening,
         CallAccept, PrintAccepted 0, CallHandleClient 0, HandleClientDone 0,
         CallAccept, PrintAccepted 1, CallHandleClient 1, HandleClientDone 1,
         CallAccept],
        [\<lparr>inq = [], rlog = [(4, Inr [0, 0, 0, 1]), (1, Inr [3])], sent = [], room = None,
            closed = True\<rparr>,
         \<lparr>inq = [], rlog = [(4, Inr [0, 0, 0, 1]), (1, Inr [1])],
            sent = [[0, 0, 0, 6], [3, 4, 0, 2, 3, 0]], room = None, closed = True\<rparr>])"
  by (simp add: ex_bind_fails_def ex_accept_fails_def ex_two_clients_def listen_attempt_def
        with_server_def ex_handle_client_absent ex_handle_client_ok)


lemma accept_loop_counts:
  "accept_loop self evs n = (r, tr, socks) \<Longrightarrow>
     count_list tr CallSocket = 0 \<and> count_list tr PrintTraceback = 0"
proof (induction evs arbitrary: n r tr socks)
  case Nil
  then show ?case by auto
next
  case (Cons ev evs)
  show ?case
  proof (cases ev)
    case (AcceptError e)
    with Cons.prems show ?thesis by auto
  next
    case (Connection client_socket)
    obtain out s where h: "handle_client self client_socket = (out, s)" by force
    show ?thesis
    proof (cases out)
      case (Raised e)
      with Cons.prems Connection h show ?thesis by auto
    next
      case (Returned printed)
      obtain r' tr' socks' where l: "accept_loop self evs (Suc n) = (r', tr', socks')"
        by (cases "accept_loop self evs (Suc n)") auto
      from Cons.IH [OF l] Cons.prems Connection h Returned l show ?thesis by auto
    qed
  qed
qed

lemma listen_attempt_counts:
  assumes "listen_attempt self a n = (r, tr, socks)"
  shows "count_list tr CallSocket = 1 \<and> count_list tr PrintTraceback = 0"
proof -
  obtain r1 tr1 socks1 where l: "accept_loop self (accepts a) n = (r1, tr1, socks1)"
    by (cases "accept_loop self (accepts a) n") auto
  from accept_loop_counts [OF l] assms l show ?thesis
    by (auto simp: listen_attempt_def with_server_def split: option.splits)
qed

lemma start_server_failed:
  assumes "\<forall>a\<in>set failed. \<forall>m. \<exists>e. fst (listen_attempt self a m) = Some e \<and> is_Exception e"
  shows "\<exists>tr socks.
           start_server self (failed @ script) n =
             (case start_server self script (n + length socks) of
                (st, tr', socks') \<Rightarrow> (st, tr @ tr', socks @ socks'))
         \<and> count_list tr CallSocket = length failed
         \<and> count_list tr PrintTraceback = length failed
         \<and> (failed = [] \<longrightarrow> tr = [] \<and> socks = [])
         \<and> (failed \<noteq> [] \<longrightarrow>
              (\<exists>tr0 e. tr = tr0 @ [PrintServerError e, PrintTraceback] \<and> is_Exception e))"
  using assms
proof (induction failed arbitrary: n)
  case Nil
  have "start_server self ([] @ script) n =
          (case start_server self script (n + length ([] :: sock list)) of
             (st, tr', socks') \<Rightarrow> (st, [] @ tr', [] @ socks'))"
    by (simp split: prod.splits)
  then show ?case by (intro exI [of _ "[]"]) simp
next
  case (Cons a failed)
  from Cons.prems have "\<exists>e. fst (listen_attempt self a n) = Some e \<and> is_Exception e"
    by simp
  then obtain e where e: "fst (listen_attempt self a n) = Some e" "is_Exception e"
    by blast
  then obtain tr1 socks1 where l: "listen_attempt self a n = (Some e, tr1, socks1)"
    by (cases "listen_attempt self a n") auto
  note c1 = listen_attempt_counts [OF l]
  from Cons.prems
  have "\<forall>a\<in>set failed. \<forall>m. \<exists>e. fst (listen_attempt self a m) = Some e \<and> is_Exception e"
    by simp
  from Cons.IH [OF this, of "n + length socks1"] obtain tr2 socks2 where
    r: "start_server self (failed @ script) (n + length socks1) =
          (case start_server self script (n + length socks1 + length socks2) of
             (st, tr', socks') \<Rightarrow> (st, tr2 @ tr', socks2 @ socks'))"
    and c2: "count_list tr2 CallSocket = length failed"
            "count_list tr2 PrintTraceback = length failed"
    and e2: "failed = [] \<longrightarrow> tr2 = [] \<and> socks2 = []"
    and l2: "failed \<noteq> [] \<longrightarrow>
              (\<exists>tr0 e. tr2 = tr0 @ [PrintServerError e, PrintTraceback] \<and> is_Exception e)"
    by blast
  let ?tr = "tr1 @ [PrintServerError e, PrintTraceback] @ tr2"
  let ?socks = "socks1 @ socks2"
  have "start_server self ((a # failed) @ script) n =
          (case start_server self script (n + length ?socks) of
             (st, tr', socks') \<Rightarrow> (st, ?tr @ tr', ?socks @ socks'))"
    using l e(2) r by (simp add: add.assoc split: prod.splits)
  moreover have "count_list ?tr CallSocket = length (a # failed)"
    "count_list ?tr PrintTraceback = length (a # failed)"
    using c1 c2 by simp_all
  moreover have "\<exists>tr0 e'. ?tr = tr0 @ [PrintServerError e', PrintTraceback] \<and> is_Exception e'"
  proof (cases "failed = []")
    case True
    with e2 have "?tr = tr1 @ [PrintServerError e, PrintTraceback]" by simp
    with e(2) show ?thesis by blast
  next
    case False
    with l2 obtain tr0 e' where "tr2 = tr0 @ [PrintServerError e', PrintTraceback]"
      "is_Exception e'" by blast
    then have "?tr = (tr1 @ [PrintServerError e, PrintTraceback] @ tr0)
                       @ [PrintServerError e', PrintTraceback]" "is_Exception e'"
      by simp_all
    then show ?thesis by blast
  qed
  ultimately show ?case by blast
qed

text \<open>Every pass of the outer loop begins by opening a listening socket.\<close>

lemma listen_attempt_begins:
  "\<exists>tr'. fst (snd (listen_attempt self a m)) = CallSocket # tr'"
  by (simp add: listen_attempt_def split: option.splits prod.splits)

lemma start_server_begins:
  assumes "script \<noteq> []"
  shows "\<exists>tr'. fst (snd (start_server self script m)) = CallSocket # tr'"
proof -
  from assms obtain a rest where s: "script = a # rest" by (cases script) auto
  obtain r tr socks where l: "listen_attempt self a m = (r, tr, socks)"
    by (cases "listen_attempt self a m") auto
  with listen_attempt_begins [of self a m] obtain tr0 where "tr = CallSocket # tr0" by auto
  with s l show ?thesis by (auto split: option.splits prod.splits)
qed

lemma start_server_Terminated:
  "fst (start_server self script n) = Terminated e \<Longrightarrow> \<not> is_Exception e"
proof (induction script arbitrary: n)
  case Nil
  then show ?case by simp
next
  case (Cons a script)
  obtain r tr1 socks1 where l: "listen_attempt self a n = (r, tr1, socks1)"
    by (cases "listen_attempt self a n") auto
  show ?case
  proof (cases r)
    case None
    with Cons.prems l show ?thesis by simp
  next
    case (Some e')
    show ?thesis
    proof (cases "is_Exception e'")
      case False
      with Cons.prems l Some show ?thesis by simp
    next
      case True
      with Cons.prems l Some
      have "fst (start_server self script (n + length socks1)) = Terminated e"
        by (simp split: prod.splits)
      then show ?thesis by (rule Cons.IH)
    qed
  qed
qed

text \<open>
  Claim C9. Let each pass of a list \<open>failed\<close> of passes of the outer loop end with an
  exception of class \<^verbatim>\<open>Exception\<close>, raised by \<^verbatim>\<open>socket\<close>, \<^verbatim>\<open>setsockopt\<close>, \<^verbatim>\<open>bind\<close>,
  \<^verbatim>\<open>listen\<close> or \<^verbatim>\<open>accept\<close>. However long the list, the server is still running after
  it; it has opened a listening socket once for each pass and printed one traceback for
  each, the last events being the error message and the traceback; and it goes on with
  the rest of the script as a fresh start would, with nothing in between. The server
  ends only with an exception that is not of class \<^verbatim>\<open>Exception\<close>.
\<close>

theorem listener_restarts:
  assumes "\<forall>a\<in>set failed. \<forall>m. \<exists>e. fst (listen_attempt self a m) = Some e \<and> is_Exception e"
  shows "fst (start_server self failed n) = Running
       \<and> (\<exists>tr socks.
             start_server self (failed @ script) n =
               (case start_server self script (n + length socks) of
                  (st, tr', socks') \<Rightarrow> (st, tr @ tr', socks @ socks'))
           \<and> count_list tr CallSocket = length failed
           \<and> count_list tr PrintTraceback = length failed
           \<and> (failed \<noteq> [] \<longrightarrow>
                (\<exists>tr0 e. tr = tr0 @ [PrintServerError e, PrintTraceback] \<and> is_Exception e)))
       \<and> (script \<noteq> [] \<longrightarrow>
            (\<forall>m. \<exists>tr'. fst (snd (start_server self script m)) = CallSocket # tr'))
       \<and> (\<forall>e. fst (start_server self (failed @ script) n) = Terminated e \<longrightarrow> \<not> is_Exception e)"
proof -
  from start_server_failed [OF assms, of "[]" n]
  have "fst (start_server self failed n) = Running" by auto
  moreover from start_server_failed [OF assms, of script n]
  have "\<exists>tr socks.
             start_server self (failed @ script) n =
               (case start_server self script (n + length socks) of
                  (st, tr', socks') \<Rightarrow> (st, tr @ tr', socks @ socks'))
           \<and> count_list tr CallSocket = length failed
           \<and> count_list tr PrintTraceback = length failed
           \<and> (failed \<noteq> [] \<longrightarrow>
                (\<exists>tr0 e. tr = tr0 @ [PrintServerError e, PrintTraceback] \<and> is_Exception e))"
    by blast
  moreover have "script \<noteq> [] \<longrightarrow>
            (\<forall>m. \<exists>tr'. fst (snd (start_server self script m)) = CallSocket # tr')"
    using start_server_begins [of script self] by blast
  ultimately show ?thesis using start_server_Terminated [of self "failed @ script" n] by blast
qed

text \<open>
  The port is in use, then \<^verbatim>\<open>accept\<close> fails, then the server accepts two connections.
\<close>

theorem listener_restarts_witness:
  "(\<forall>m. fst (listen_attempt ex_server ex_bind_fails m)
          = Some (OSError ''Address already in use''))
   \<and> (\<forall>m. fst (listen_attempt ex_server ex_accept_fails m)
          = Some (OSError ''Too many open files''))
   \<and> is_Exception (OSError ''Address already in use'')
   \<and> is_Exception (OSError ''Too many open files'')
   \<and> fst (start_server ex_server [ex_bind_fails, ex_accept_fails] 0) = Running
   \<and> start_server ex_server ([ex_bind_fails, ex_accept_fails] @ [ex_two_clients]) 0
     = (Running,
        [CallSocket, CallSetsockopt, CallBind, ServerClose,
         PrintServerError (OSError ''Address already in use''), PrintTraceback,
         CallSocket, CallSetsockopt, CallBind, CallListen, PrintListening, CallAccept,
         ServerClose,
         PrintServerError (OSError ''Too many open files''), PrintTraceback,
         CallSocket, CallSetsockopt, CallBind, CallListen, PrintListening,
         CallAccept, PrintAccepted 0, CallHandleClient 0, HandleClientDone 0,
         CallAccept, PrintAccepted 1, CallHandleClient 1, HandleClientDone 1,
         CallAccept],
        [\<lparr>inq = [], rlog = [(4, Inr [0, 0, 0, 1]), (1, Inr [3])], sent = [], room = None,
            closed = True\<rparr>,
         \<lparr>inq = [], rlog = [(4, Inr [0, 0, 0, 1]), (1, Inr [1])],
            sent = [[0, 0, 0, 6], [3, 4, 0, 2, 3, 0]], room = None, closed = True\<rparr>])"
proof -
  have h: "\<forall>a\<in>set [ex_bind_fails, ex_accept_fails]. \<forall>m.
       \<exists>e. fst (listen_attempt ex_server a m) = Some e \<and> is_Exception e"
    by (simp add: ex_bind_fails_def ex_accept_fails_def listen_attempt_def with_server_def)
  have a: "\<forall>m. fst (listen_attempt ex_server ex_bind_fails m)
          = Some (OSError ''Address already in use'')"
    "\<forall>m. fst (listen_attempt ex_server ex_accept_fails m)
          = Some (OSError ''Too many open files'')"
    by (simp_all add: ex_bind_fails_def ex_accept_fails_def listen_attempt_def with_server_def)
  from listener_restarts [OF h, of 0 "[]"]
  have "fst (start_server ex_server [ex_bind_fails, ex_accept_fails] 0) = Running"
    by blast
  with a show ?thesis using ex_start_server by simp
qed

end
